theory Spec2Isabelle
  imports Main "HOL-Library.Sublist" "HOL-Library.Char_ord" "HOL-Library.List_Lexorder"
begin

section \<open>Data model of the rule orchestration engine (maps_workflow/main.py)\<close>

text \<open>
  Values produced by the YAML loader. Mappings keep their entries in document order and
  have string keys (a declaration file is a mapping \<open>rules: [...]\<close> whose entries are
  mappings from field names to values). Floating point scalars are not modelled.
\<close>

datatype yaml =
    YNull
  | YBool bool
  | YInt int
  | YStr string
  | YSeq "yaml list"
  | YMap "(string \<times> yaml) list"

text \<open>
  Exceptions. \<open>NonException\<close> stands for the classes outside \<open>Exception\<close>
  (SystemExit, KeyboardInterrupt, GeneratorExit): \<open>except Exception\<close> does not catch them.
\<close>

datatype exn =
    KeyError
  | TypeError
  | UnboundLocalError
  | ModuleNotFoundError
  | OtherException string
  | NonException string

fun is_Exception :: "exn \<Rightarrow> bool" where
  "is_Exception (NonException c) = False"
| "is_Exception e = True"

type_synonym violation = string

text \<open>
  The validated descriptor \<open>BaseRuleConfig\<close>. The policy \<open>type\<close> stays a string,
  since execute_rules compares it with the literals "require", "fail" and "skip".
\<close>

record BaseRuleConfig =
  name :: string
  module :: string
  class_name :: string
  description :: string
  type :: string
  depends_on :: "string list"
  params :: "(string \<times> yaml) list"

text \<open>
  A rule instance as the engine sees it: its truth value (\<open>if not rule_func\<close>; false only
  for a class that defines \<open>__bool__\<close> or \<open>__len__\<close> so), what \<open>evaluate()\<close> does and what
  \<open>explain()\<close> does. A rule class is its constructor, called with the artifact's locator,
  the parsed artifact (both None in documentation mode) and the descriptor's params.
\<close>

record rule_instance =
  truthy :: bool
  evaluate :: "exn + violation list"
  explain :: "exn + string"

type_synonym 'm rule_class =
  "string option \<Rightarrow> 'm option \<Rightarrow> (string \<times> yaml) list \<Rightarrow> exn + rule_instance"

type_synonym 'm py_module = "string \<rightharpoonup> 'm rule_class"

text \<open>
  The collaborators of the engine, taken as parameters: \<open>validate\<close> is
  \<open>BaseRuleConfig(**rule)\<close> (None when it raises ValidationError), \<open>import_module\<close> is
  \<open>importlib.import_module\<close> on a dotted module name.
\<close>

record 'm env =
  validate :: "(string \<times> yaml) list \<Rightarrow> BaseRuleConfig option"
  import_module :: "string \<Rightarrow> exn + 'm py_module"

text \<open>What a run does to the outside, in order: log records and calls of collaborators.\<close>

datatype event =
    Log_validation_error
  | Log_skipping string
  | Log_module_not_found string
  | Log_rule_not_found string string
  | Log_violation violation
  | Log_passed string
  | Log_failed_required string
  | Log_failed_continuing string
  | Log_failed_skipping string
  | Log_error_required string
  | Log_error_fail string
  | Log_error_skip string
  | Log_all_processed
  | Call_import string
  | Call_construct string string
  | Call_evaluate string
  | Call_explain string

text \<open>
  The locals of execute_rules that outlive one iteration: the status table, whether
  \<open>rule_time_elapsed\<close> has been assigned yet, and the events so far.
\<close>

record run_state =
  rule_status :: "yaml \<rightharpoonup> bool"
  elapsed_bound :: bool
  trace :: "event list"

datatype outcome =
    Continue run_state
  | Return bool run_state
  | Raise exn run_state

datatype run_result =
    Returned bool run_state
  | Raised exn run_state

definition initial_state :: run_state where
  "initial_state = \<lparr>rule_status = Map.empty, elapsed_bound = False, trace = []\<rparr>"

definition emit :: "event \<Rightarrow> run_state \<Rightarrow> run_state" where
  "emit e s = s\<lparr>trace := trace s @ [e]\<rparr>"

definition set_status :: "yaml \<Rightarrow> bool \<Rightarrow> run_state \<Rightarrow> run_state" where
  "set_status k b s = s\<lparr>rule_status := (rule_status s)(k \<mapsto> b)\<rparr>"

text \<open>
  The key a value becomes in a Python dict: sequences and mappings are unhashable
  (TypeError), and True and False are the keys 1 and 0.
\<close>

fun dict_key :: "yaml \<Rightarrow> yaml option" where
  "dict_key (YSeq xs) = None"
| "dict_key (YMap kvs) = None"
| "dict_key (YBool b) = Some (YInt (if b then 1 else 0))"
| "dict_key v = Some v"

section \<open>The loader\<close>

text \<open>
  The file system: \<open>os_listdir\<close> gives a directory's names in no particular order,
  \<open>yaml_load\<close> opens and parses the file at a path.
\<close>

record filesys =
  os_listdir :: "string \<Rightarrow> exn + string list"
  yaml_load :: "string \<Rightarrow> exn + yaml"

definition os_path_join :: "string \<Rightarrow> string \<Rightarrow> string" where
  "os_path_join a b =
     (if prefix ''/'' b then b
      else if a = [] \<or> suffix ''/'' a then a @ b
      else a @ ''/'' @ b)"

definition load_rules_from_file :: "filesys \<Rightarrow> string \<Rightarrow> exn + yaml" where
  "load_rules_from_file fs file_path = yaml_load fs file_path"

text \<open>\<open>rules['rules']\<close>: subscripting the loaded document with the string "rules".\<close>

fun subscript_rules :: "yaml \<Rightarrow> exn + yaml" where
  "subscript_rules (YMap kvs) =
     (case map_of kvs ''rules'' of None \<Rightarrow> Inl KeyError | Some v \<Rightarrow> Inr v)"
| "subscript_rules v = Inl TypeError"

text \<open>
  What \<open>list.extend\<close> appends: the elements of a sequence, the keys of a mapping, the
  characters of a string; any other value is not iterable.
\<close>

fun iterate :: "yaml \<Rightarrow> exn + yaml list" where
  "iterate (YSeq xs) = Inr xs"
| "iterate (YMap kvs) = Inr (map (\<lambda>kv. YStr (fst kv)) kvs)"
| "iterate (YStr s) = Inr (map (\<lambda>c. YStr [c]) s)"
| "iterate v = Inl TypeError"

definition excluded :: "string list \<Rightarrow> string \<Rightarrow> bool" where
  "excluded exclude filename = list_ex (\<lambda>skip. prefix skip filename) exclude"

fun load_loop :: "filesys \<Rightarrow> string \<Rightarrow> string list \<Rightarrow> yaml list \<Rightarrow> string list \<Rightarrow> exn + yaml list" where
  "load_loop fs directory exclude all_rules [] = Inr all_rules"
| "load_loop fs directory exclude all_rules (filename # rest) =
     (if excluded exclude filename then load_loop fs directory exclude all_rules rest
      else if suffix ''.yaml'' filename then
        (case load_rules_from_file fs (os_path_join directory filename) of
           Inl e \<Rightarrow> Inl e
         | Inr rules \<Rightarrow>
             (case subscript_rules rules of
                Inl e \<Rightarrow> Inl e
              | Inr v \<Rightarrow>
                  (case iterate v of
                     Inl e \<Rightarrow> Inl e
                   | Inr items \<Rightarrow> load_loop fs directory exclude (all_rules @ items) rest)))
      else load_loop fs directory exclude all_rules rest)"

text \<open>The result is the list under the key "rules" of the dict the source returns.\<close>

definition load_all_rules :: "filesys \<Rightarrow> string \<Rightarrow> string list \<Rightarrow> exn + yaml list" where
  "load_all_rules fs directory exclude =
     (case os_listdir fs directory of
        Inl e \<Rightarrow> Inl e
      | Inr names \<Rightarrow> load_loop fs directory exclude [] (sort names))"

section \<open>The execution engine\<close>

definition can_run_rule :: "run_state \<Rightarrow> string \<Rightarrow> bool" where
  "can_run_rule s rule_name =
     (case rule_status s (YStr rule_name) of None \<Rightarrow> False | Some b \<Rightarrow> b)"

text \<open>
  load_rule_from_module: the module, None after a caught ModuleNotFoundError (with its
  warning), or any other exception of the import, which propagates. The events are those
  of the call.
\<close>

definition load_rule_from_module ::
  "'m env \<Rightarrow> string \<Rightarrow> (exn + 'm py_module option) \<times> event list" where
  "load_rule_from_module env rule_name =
     (case import_module env (''maps_workflow.'' @ rule_name) of
        Inr m \<Rightarrow> (Inr (Some m), [Call_import rule_name])
      | Inl e \<Rightarrow>
          (if e = ModuleNotFoundError
           then (Inr None, [Call_import rule_name, Log_module_not_found rule_name])
           else (Inl e, [Call_import rule_name])))"

definition emits :: "event list \<Rightarrow> run_state \<Rightarrow> run_state" where
  "emits es s = s\<lparr>trace := trace s @ es\<rparr>"

text \<open>
  Lines 72 to 105: the try block around \<open>evaluate()\<close> and its handler. The handler's
  messages format \<open>rule_time_elapsed\<close>, which is assigned only after \<open>evaluate()\<close> has
  returned; read while unbound, it raises UnboundLocalError out of the handler.
\<close>

definition evaluate_rule :: "run_state \<Rightarrow> BaseRuleConfig \<Rightarrow> rule_instance \<Rightarrow> outcome" where
  "evaluate_rule s rule rule_func =
     (let s1 = emit (Call_evaluate (name rule)) s in
      case evaluate rule_func of
        Inr violations \<Rightarrow>
          (let s2 = s1\<lparr>elapsed_bound := True\<rparr> in
           if length violations > 0 then
             (let s3 = set_status (YStr (name rule)) False (emits (map Log_violation violations) s2) in
              if type rule = ''require'' then Return False (emit (Log_failed_required (name rule)) s3)
              else if type rule = ''fail'' then Continue (emit (Log_failed_continuing (name rule)) s3)
              else if type rule = ''skip'' then Continue (emit (Log_failed_skipping (name rule)) s3)
              else Continue s3)
           else Continue (set_status (YStr (name rule)) True (emit (Log_passed (name rule)) s2)))
      | Inl e \<Rightarrow>
          (if is_Exception e then
             (let s2 = set_status (YStr (name rule)) False s1 in
              if type rule = ''require'' then
                (if elapsed_bound s2 then Return False (emit (Log_error_required (name rule)) s2)
                 else Raise UnboundLocalError s2)
              else if type rule = ''fail'' then
                (if elapsed_bound s2 then Continue (emit (Log_error_fail (name rule)) s2)
                 else Raise UnboundLocalError s2)
              else if type rule = ''skip'' then
                (if elapsed_bound s2 then Continue (emit (Log_error_skip (name rule)) s2)
                 else Raise UnboundLocalError s2)
              else Continue s2)
           else Raise e s1))"

text \<open>
  Lines 56 to 70: the dependency gate, the module lookup, and
  \<open>getattr(rule_module, rule.class_name, None)(raw_file, map_data, rule.params)\<close>, which
  calls None (TypeError) when the module has no such attribute.
\<close>

definition process_validated ::
  "'m env \<Rightarrow> string \<Rightarrow> 'm \<Rightarrow> run_state \<Rightarrow> BaseRuleConfig \<Rightarrow> outcome" where
  "process_validated env raw_file map_data s rule =
     (if \<not> list_all (can_run_rule s) (depends_on rule) then
        Continue (set_status (YStr (name rule)) False (emit (Log_skipping (name rule)) s))
      else
        (case load_rule_from_module env (module rule) of
           (Inl e, es) \<Rightarrow> Raise e (emits es s)
         | (Inr None, es) \<Rightarrow> Continue (set_status (YStr (name rule)) False (emits es s))
         | (Inr (Some rule_module), es) \<Rightarrow>
             (case rule_module (class_name rule) of
                None \<Rightarrow> Raise TypeError (emits es s)
              | Some cls \<Rightarrow>
                  (let s1 = emit (Call_construct (module rule) (class_name rule)) (emits es s) in
                   case cls (Some raw_file) (Some map_data) (params rule) of
                     Inl e \<Rightarrow> Raise e s1
                   | Inr rule_func \<Rightarrow>
                       (if \<not> truthy rule_func then
                          Continue (set_status (YStr (name rule)) False
                            (emit (Log_rule_not_found (name rule) (module rule)) s1))
                        else evaluate_rule s1 rule rule_func)))))"

text \<open>
  Lines 49 to 54, then the rest of the loop body: an entry that is not a mapping makes
  \<open>**rule\<close> raise TypeError; after a ValidationError the handler subscripts the raw
  mapping with "name" (KeyError when it has none) and uses the value as a dict key.
\<close>

definition process_rule :: "'m env \<Rightarrow> string \<Rightarrow> 'm \<Rightarrow> run_state \<Rightarrow> yaml \<Rightarrow> outcome" where
  "process_rule env raw_file map_data s rule =
     (case rule of
        YMap kvs \<Rightarrow>
          (case validate env kvs of
             None \<Rightarrow>
               (let s1 = emit Log_validation_error s in
                case map_of kvs ''name'' of
                  None \<Rightarrow> Raise KeyError s1
                | Some v \<Rightarrow>
                    (case dict_key v of
                       None \<Rightarrow> Raise TypeError s1
                     | Some k \<Rightarrow> Continue (set_status k False s1)))
           | Some cfg \<Rightarrow> process_validated env raw_file map_data s cfg)
      | _ \<Rightarrow> Raise TypeError s)"

fun run_loop :: "'m env \<Rightarrow> string \<Rightarrow> 'm \<Rightarrow> run_state \<Rightarrow> yaml list \<Rightarrow> outcome" where
  "run_loop env raw_file map_data s [] = Continue s"
| "run_loop env raw_file map_data s (rule # rest) =
     (case process_rule env raw_file map_data s rule of
        Continue s' \<Rightarrow> run_loop env raw_file map_data s' rest
      | Return b s' \<Rightarrow> Return b s'
      | Raise e s' \<Rightarrow> Raise e s')"

definition execute_rules :: "string \<Rightarrow> 'm \<Rightarrow> 'm env \<Rightarrow> yaml list \<Rightarrow> run_result" where
  "execute_rules raw_file map_data env config =
     (case run_loop env raw_file map_data initial_state config of
        Continue s \<Rightarrow> Returned True (emit Log_all_processed s)
      | Return b s \<Rightarrow> Returned b s
      | Raise e s \<Rightarrow> Raised e s)"

section \<open>Documentation generation\<close>

record doc_entry =
  entry_name :: string
  entry_desc :: string
  entry_explain :: string
  entry_required :: bool

datatype gen_result =
    Generated "doc_entry list" "event list"
  | GenRaised exn "event list"

fun generate_loop :: "'m env \<Rightarrow> doc_entry list \<Rightarrow> event list \<Rightarrow> yaml list \<Rightarrow> gen_result" where
  "generate_loop env rule_evaluation tr [] = Generated rule_evaluation tr"
| "generate_loop env rule_evaluation tr (rule # rest) =
     (case rule of
        YMap kvs \<Rightarrow>
          (case validate env kvs of
             None \<Rightarrow> generate_loop env rule_evaluation (tr @ [Log_validation_error]) rest
           | Some cfg \<Rightarrow>
               (case load_rule_from_module env (module cfg) of
                  (Inl e, es) \<Rightarrow> GenRaised e (tr @ es)
                | (Inr None, es) \<Rightarrow> generate_loop env rule_evaluation (tr @ es) rest
                | (Inr (Some rule_module), es) \<Rightarrow>
                    (case rule_module (class_name cfg) of
                       None \<Rightarrow> GenRaised TypeError (tr @ es)
                     | Some cls \<Rightarrow>
                         (let tr1 = tr @ es @ [Call_construct (module cfg) (class_name cfg)] in
                          case cls None None (params cfg) of
                            Inl e \<Rightarrow> GenRaised e tr1
                          | Inr rule_func \<Rightarrow>
                              (if \<not> truthy rule_func then generate_loop env rule_evaluation tr1 rest
                               else
                                 (case explain rule_func of
                                    Inl e \<Rightarrow> GenRaised e (tr1 @ [Call_explain (name cfg)])
                                  | Inr text \<Rightarrow>
                                      generate_loop env
                                        (rule_evaluation @
                                          [\<lparr>entry_name = name cfg, entry_desc = description cfg,
                                            entry_explain = text,
                                            entry_required = (if type cfg = ''require'' then True else False)\<rparr>])
                                        (tr1 @ [Call_explain (name cfg)]) rest))))))
      | _ \<Rightarrow> GenRaised TypeError tr)"

definition generate_rules_file :: "filesys \<Rightarrow> 'm env \<Rightarrow> gen_result" where
  "generate_rules_file fs env =
     (case load_all_rules fs ''map_rules/'' [] of
        Inl e \<Rightarrow> GenRaised e []
      | Inr config \<Rightarrow> generate_loop env [] [] config)"

section \<open>The descriptor's validation\<close>

text \<open>
  Modelled from the spec: the class BaseRuleConfig of maps_workflow/baserule.py, which is
  not among the sources. Section 4.1: the fields name, module, class_name and type are
  required; depends_on defaults to an empty sequence and params to an empty mapping; type
  is one of the three policies. The description is taken as optional text.
\<close>

definition str_field :: "(string \<times> yaml) list \<Rightarrow> string \<Rightarrow> string option" where
  "str_field kvs k = (case map_of kvs k of Some (YStr s) \<Rightarrow> Some s | _ \<Rightarrow> None)"

fun str_items :: "yaml list \<Rightarrow> string list option" where
  "str_items [] = Some []"
| "str_items (YStr s # rest) = (case str_items rest of None \<Rightarrow> None | Some ss \<Rightarrow> Some (s # ss))"
| "str_items (v # rest) = None"

definition depends_on_field :: "(string \<times> yaml) list \<Rightarrow> string list option" where
  "depends_on_field kvs =
     (case map_of kvs ''depends_on'' of
        None \<Rightarrow> Some []
      | Some (YSeq xs) \<Rightarrow> str_items xs
      | Some v \<Rightarrow> None)"

definition params_field :: "(string \<times> yaml) list \<Rightarrow> (string \<times> yaml) list option" where
  "params_field kvs =
     (case map_of kvs ''params'' of
        None \<Rightarrow> Some []
      | Some (YMap m) \<Rightarrow> Some m
      | Some v \<Rightarrow> None)"

definition description_field :: "(string \<times> yaml) list \<Rightarrow> string option" where
  "description_field kvs =
     (case map_of kvs ''description'' of
        None \<Rightarrow> Some []
      | Some (YStr s) \<Rightarrow> Some s
      | Some v \<Rightarrow> None)"

definition BaseRuleConfig_validate :: "(string \<times> yaml) list \<Rightarrow> BaseRuleConfig option" where
  "BaseRuleConfig_validate kvs =
     (case str_field kvs ''name'' of None \<Rightarrow> None | Some n \<Rightarrow>
      case str_field kvs ''module'' of None \<Rightarrow> None | Some m \<Rightarrow>
      case str_field kvs ''class_name'' of None \<Rightarrow> None | Some c \<Rightarrow>
      case str_field kvs ''type'' of None \<Rightarrow> None | Some t \<Rightarrow>
      case description_field kvs of None \<Rightarrow> None | Some d \<Rightarrow>
      case depends_on_field kvs of None \<Rightarrow> None | Some deps \<Rightarrow>
      case params_field kvs of None \<Rightarrow> None | Some ps \<Rightarrow>
        if t = ''require'' \<or> t = ''fail'' \<or> t = ''skip'' then
          Some \<lparr>name = n, module = m, class_name = c, description = d, type = t,
                depends_on = deps, params = ps\<rparr>
        else None)"

section \<open>Notions the statements use\<close>

text \<open>
  The key under which a descriptor's outcome is stored: the validated name, or, for a
  mapping that fails validation, the dict key of its raw \<open>name\<close> value.
\<close>

definition status_key :: "'m env \<Rightarrow> yaml \<Rightarrow> yaml option" where
  "status_key env rule =
     (case rule of
        YMap kvs \<Rightarrow>
          (case validate env kvs of
             Some cfg \<Rightarrow> Some (YStr (name cfg))
           | None \<Rightarrow> (case map_of kvs ''name'' of None \<Rightarrow> None | Some v \<Rightarrow> dict_key v))
      | _ \<Rightarrow> None)"

text \<open>
  The outcome of a descriptor processed in a state, read off the source: line 86 is the only
  assignment of True, reached when the mapping validates, every dependency is held as true,
  the module and the class resolve to an instance that is not falsy, and \<open>evaluate()\<close>
  returns an empty list. Every other assignment to the status table stores False.
\<close>

definition resolved_instance ::
  "'m env \<Rightarrow> string \<Rightarrow> 'm \<Rightarrow> BaseRuleConfig \<Rightarrow> rule_instance option" where
  "resolved_instance env raw_file map_data cfg =
     (case import_module env (''maps_workflow.'' @ module cfg) of
        Inl e \<Rightarrow> None
      | Inr rule_module \<Rightarrow>
          (case rule_module (class_name cfg) of
             None \<Rightarrow> None
           | Some cls \<Rightarrow>
               (case cls (Some raw_file) (Some map_data) (params cfg) of
                  Inl e \<Rightarrow> None
                | Inr rule_func \<Rightarrow> if truthy rule_func then Some rule_func else None)))"

definition descriptor_passes ::
  "'m env \<Rightarrow> string \<Rightarrow> 'm \<Rightarrow> run_state \<Rightarrow> BaseRuleConfig \<Rightarrow> bool" where
  "descriptor_passes env raw_file map_data s cfg =
     (list_all (can_run_rule s) (depends_on cfg) \<and>
      (case resolved_instance env raw_file map_data cfg of
         None \<Rightarrow> False
       | Some rule_func \<Rightarrow> evaluate rule_func = Inr []))"

definition rule_passes :: "'m env \<Rightarrow> string \<Rightarrow> 'm \<Rightarrow> run_state \<Rightarrow> yaml \<Rightarrow> bool" where
  "rule_passes env raw_file map_data s rule =
     (case rule of
        YMap kvs \<Rightarrow>
          (case validate env kvs of
             None \<Rightarrow> False
           | Some cfg \<Rightarrow> descriptor_passes env raw_file map_data s cfg)
      | _ \<Rightarrow> False)"

text \<open>The test of the loader's loop body: not excluded, and ending in ".yaml".\<close>

definition selected :: "string list \<Rightarrow> string \<Rightarrow> bool" where
  "selected exclude filename = (\<not> excluded exclude filename \<and> suffix ''.yaml'' filename)"

text \<open>
  The loader's contract in the specification's words: the declaration files of a directory
  are its names that end in the extension and start with no excluded prefix, in
  lexicographic order; a declaration file's rule list is the sequence under \<open>rules\<close>
  of the mapping it parses to.
\<close>

definition declaration_files :: "string list \<Rightarrow> string list \<Rightarrow> string list" where
  "declaration_files names exclude =
     sorted_list_of_set
       {f \<in> set names. suffix ''.yaml'' f \<and> \<not> (\<exists>p \<in> set exclude. prefix p f)}"

definition has_rule_list :: "filesys \<Rightarrow> string \<Rightarrow> string \<Rightarrow> bool" where
  "has_rule_list fs directory filename =
     (case yaml_load fs (os_path_join directory filename) of
        Inr (YMap doc) \<Rightarrow> (case map_of doc ''rules'' of Some (YSeq rs) \<Rightarrow> True | _ \<Rightarrow> False)
      | _ \<Rightarrow> False)"

definition rule_list :: "filesys \<Rightarrow> string \<Rightarrow> string \<Rightarrow> yaml list" where
  "rule_list fs directory filename =
     (case yaml_load fs (os_path_join directory filename) of
        Inr (YMap doc) \<Rightarrow> (case map_of doc ''rules'' of Some (YSeq rs) \<Rightarrow> rs | _ \<Rightarrow> [])
      | _ \<Rightarrow> [])"

section \<open>A small rule set to run the engine on\<close>

definition const_rule :: "exn + violation list \<Rightarrow> unit rule_class" where
  "const_rule r = (\<lambda>raw_file map_data ps. Inr \<lparr>truthy = True, evaluate = r, explain = Inr ''text''\<rparr>)"

definition checks_module :: "unit py_module" where
  "checks_module =
     [''Passes'' \<mapsto> const_rule (Inr []),
      ''Violates'' \<mapsto> const_rule (Inr [''bad tile'']),
      ''Errors'' \<mapsto> const_rule (Inl (OtherException ''ValueError''))]"

definition example_import :: "string \<Rightarrow> exn + unit py_module" where
  "example_import n =
     (if n = ''maps_workflow.checks'' then Inr checks_module else Inl ModuleNotFoundError)"

definition example_env :: "unit env" where
  "example_env = \<lparr>validate = BaseRuleConfig_validate, import_module = example_import\<rparr>"

definition rule_entry :: "string \<Rightarrow> string \<Rightarrow> string \<Rightarrow> string list \<Rightarrow> (string \<times> yaml) list" where
  "rule_entry n c t deps =
     [(''name'', YStr n), (''module'', YStr ''checks''), (''class_name'', YStr c),
      (''type'', YStr t), (''depends_on'', YSeq (map YStr deps))]"

definition cfg_of :: "string \<Rightarrow> string \<Rightarrow> string \<Rightarrow> string list \<Rightarrow> BaseRuleConfig" where
  "cfg_of n c t deps =
     \<lparr>name = n, module = ''checks'', class_name = c, description = [], type = t,
      depends_on = deps, params = []\<rparr>"

definition instance_of :: "exn + violation list \<Rightarrow> rule_instance" where
  "instance_of r = \<lparr>truthy = True, evaluate = r, explain = Inr ''text''\<rparr>"

text \<open>The state after the single passing rule p has been processed.\<close>

definition state_after_p :: run_state where
  "state_after_p =
     \<lparr>rule_status = [YStr ''p'' \<mapsto> True], elapsed_bound = True,
      trace = [Call_import ''checks'', Call_construct ''checks'' ''Passes'',
               Call_evaluate ''p'', Log_passed ''p'']\<rparr>"

text \<open>
  A directory \<open>rules/\<close> with two declaration files, a file of another extension and a
  file that does not parse, and a directory \<open>map_rules/\<close> with one declaration file.
\<close>

definition example_fs :: filesys where
  "example_fs =
     \<lparr>os_listdir = (\<lambda>d.
        if d = ''rules/'' then Inr [''b.yaml'', ''skip_c.yaml'', ''notes.txt'', ''a.yaml'']
        else if d = ''map_rules/'' then Inr [''docs.yaml'']
        else Inl (OtherException ''FileNotFoundError'')),
      yaml_load = (\<lambda>p.
        if p = ''rules/a.yaml'' then
          Inr (YMap [(''rules'', YSeq [YMap (rule_entry ''p'' ''Passes'' ''fail'' [])])])
        else if p = ''rules/b.yaml'' then
          Inr (YMap [(''rules'', YSeq [YMap (rule_entry ''q'' ''Violates'' ''skip'' []),
                                       YMap (rule_entry ''r'' ''Passes'' ''require'' [''p''])])])
        else if p = ''map_rules/docs.yaml'' then
          Inr (YMap [(''rules'', YSeq [YMap (rule_entry ''p'' ''Passes'' ''require'' []),
                                       YMap (rule_entry ''m'' ''Missing'' ''fail'' []),
                                       YMap (rule_entry ''q'' ''Passes'' ''fail'' [])])])
        else Inl (OtherException ''ScannerError''))\<rparr>"

section \<open>Facts about the engine's steps\<close>

lemma emit_fields [simp]:
  "rule_status (emit e s) = rule_status s"
  "elapsed_bound (emit e s) = elapsed_bound s"
  "trace (emit e s) = trace s @ [e]"
  by (simp_all add: emit_def)

lemma emits_fields [simp]:
  "rule_status (emits es s) = rule_status s"
  "elapsed_bound (emits es s) = elapsed_bound s"
  "trace (emits es s) = trace s @ es"
  by (simp_all add: emits_def)

lemma set_status_fields [simp]:
  "rule_status (set_status k b s) = (rule_status s)(k \<mapsto> b)"
  "elapsed_bound (set_status k b s) = elapsed_bound s"
  "trace (set_status k b s) = trace s"
  by (simp_all add: set_status_def)

lemma run_loop_append:
  "run_loop env raw_file map_data s xs = Continue s' \<Longrightarrow>
   run_loop env raw_file map_data s (xs @ ys) = run_loop env raw_file map_data s' ys"
  by (induction xs arbitrary: s) (auto split: outcome.splits)

lemma run_loop_stops:
  "run_loop env raw_file map_data s xs = Return b s' \<Longrightarrow>
   run_loop env raw_file map_data s (xs @ ys) = Return b s'"
  by (induction xs arbitrary: s) (auto split: outcome.splits)

lemmas engine_defs =
  process_rule_def process_validated_def evaluate_rule_def load_rule_from_module_def
  can_run_rule_def emit_def emits_def set_status_def initial_state_def Let_def

lemmas example_defs =
  example_env_def example_import_def checks_module_def const_rule_def rule_entry_def
  BaseRuleConfig_validate_def str_field_def depends_on_field_def params_field_def
  description_field_def

subsection \<open>The dependency gate and the resolution\<close>

lemma gate_fails:
  assumes "dep \<in> set (depends_on cfg)" and "rule_status s (YStr dep) \<noteq> Some True"
  shows "\<not> list_all (can_run_rule s) (depends_on cfg)"
proof -
  have "\<not> can_run_rule s dep"
    using assms(2) by (cases "rule_status s (YStr dep)") (auto simp add: can_run_rule_def)
  with assms(1) show ?thesis by (auto simp add: list_all_iff)
qed

lemma process_validated_resolved:
  assumes "list_all (can_run_rule s) (depends_on cfg)"
    and "import_module env (''maps_workflow.'' @ module cfg) = Inr rule_module"
    and "rule_module (class_name cfg) = Some cls"
    and "cls (Some raw_file) (Some map_data) (params cfg) = Inr rule_func"
    and "truthy rule_func"
  shows "process_validated env raw_file map_data s cfg =
    evaluate_rule (emit (Call_construct (module cfg) (class_name cfg))
      (emits [Call_import (module cfg)] s)) cfg rule_func"
  using assms by (simp add: process_validated_def load_rule_from_module_def)

lemma absent_module_continues:
  assumes "list_all (can_run_rule s) (depends_on cfg)"
    and "import_module env (''maps_workflow.'' @ module cfg) = Inl ModuleNotFoundError"
  shows "process_validated env raw_file map_data s cfg =
    Continue (set_status (YStr (name cfg)) False
      (emits [Call_import (module cfg), Log_module_not_found (module cfg)] s))"
  using assms by (simp add: process_validated_def load_rule_from_module_def)

lemma absent_class_raises:
  assumes "list_all (can_run_rule s) (depends_on cfg)"
    and "import_module env (''maps_workflow.'' @ module cfg) = Inr rule_module"
    and "rule_module (class_name cfg) = None"
  shows "process_validated env raw_file map_data s cfg =
    Raise TypeError (emits [Call_import (module cfg)] s)"
  using assms by (simp add: process_validated_def load_rule_from_module_def)

lemma falsy_instance_continues:
  assumes "list_all (can_run_rule s) (depends_on cfg)"
    and "import_module env (''maps_workflow.'' @ module cfg) = Inr rule_module"
    and "rule_module (class_name cfg) = Some cls"
    and "cls (Some raw_file) (Some map_data) (params cfg) = Inr rule_func"
    and "\<not> truthy rule_func"
  shows "process_validated env raw_file map_data s cfg =
    Continue (set_status (YStr (name cfg)) False
      (emit (Log_rule_not_found (name cfg) (module cfg))
        (emit (Call_construct (module cfg) (class_name cfg))
          (emits [Call_import (module cfg)] s))))"
  using assms by (simp add: process_validated_def load_rule_from_module_def)

subsection \<open>The validation handler\<close>

lemma invalid_without_name_raises:
  assumes "validate env kvs = None" and "map_of kvs ''name'' = None"
  shows "process_rule env raw_file map_data s (YMap kvs) =
    Raise KeyError (emit Log_validation_error s)"
  using assms by (simp add: process_rule_def)

lemma invalid_with_name_continues:
  assumes "validate env kvs = None" and "map_of kvs ''name'' = Some v" and "dict_key v = Some k"
  shows "process_rule env raw_file map_data s (YMap kvs) =
    Continue (set_status k False (emit Log_validation_error s))"
  using assms by (simp add: process_rule_def)

subsection \<open>The evaluation and the policies\<close>

lemma evaluate_rule_violations:
  assumes "evaluate rule_func = Inr violations" and "violations \<noteq> []"
  shows "\<exists>s'. rule_status s' = (rule_status s)(YStr (name cfg) \<mapsto> False) \<and>
    evaluate_rule s cfg rule_func =
      (if type cfg = ''require'' then Return False s' else Continue s')"
  using assms by (simp add: evaluate_rule_def Let_def)

lemma evaluate_rule_violations_continue:
  assumes "evaluate rule_func = Inr violations" and "violations \<noteq> []"
    and "type cfg = ''fail'' \<or> type cfg = ''skip''"
  shows "\<exists>s'. rule_status s' = (rule_status s)(YStr (name cfg) \<mapsto> False) \<and>
    evaluate_rule s cfg rule_func = Continue s'"
  using assms by (auto simp add: evaluate_rule_def Let_def)

lemma evaluate_rule_passes:
  assumes "evaluate rule_func = Inr []"
  shows "\<exists>s'. rule_status s' = (rule_status s)(YStr (name cfg) \<mapsto> True) \<and>
    evaluate_rule s cfg rule_func = Continue s'"
  using assms by (simp add: evaluate_rule_def Let_def)

lemma evaluate_rule_error_unbound:
  assumes "evaluate rule_func = Inl e" and "is_Exception e" and "\<not> elapsed_bound s"
    and "type cfg = ''require'' \<or> type cfg = ''fail'' \<or> type cfg = ''skip''"
  shows "evaluate_rule s cfg rule_func =
    Raise UnboundLocalError (set_status (YStr (name cfg)) False (emit (Call_evaluate (name cfg)) s))"
  using assms by (auto simp add: evaluate_rule_def Let_def)

lemma evaluate_rule_error_bound:
  assumes "evaluate rule_func = Inl e" and "is_Exception e" and "elapsed_bound s"
  shows "\<exists>s'. rule_status s' = (rule_status s)(YStr (name cfg) \<mapsto> False) \<and>
    evaluate_rule s cfg rule_func =
      (if type cfg = ''require'' then Return False s' else Continue s')"
  using assms by (simp add: evaluate_rule_def Let_def)

lemma evaluate_rule_Return:
  assumes "evaluate_rule s cfg rule_func = Return b s'"
  shows "\<not> b \<and> type cfg = ''require'' \<and>
    (case evaluate rule_func of Inr vs \<Rightarrow> vs \<noteq> [] | Inl e \<Rightarrow> is_Exception e)"
  using assms by (auto simp add: evaluate_rule_def Let_def split: sum.splits if_splits)

lemma process_validated_Return:
  assumes "process_validated env raw_file map_data s cfg = Return b s'"
  shows "\<not> b \<and> type cfg = ''require'' \<and> list_all (can_run_rule s) (depends_on cfg) \<and>
    (\<exists>rule_module cls rule_func.
       import_module env (''maps_workflow.'' @ module cfg) = Inr rule_module \<and>
       rule_module (class_name cfg) = Some cls \<and>
       cls (Some raw_file) (Some map_data) (params cfg) = Inr rule_func \<and>
       truthy rule_func \<and>
       (case evaluate rule_func of Inr vs \<Rightarrow> vs \<noteq> [] | Inl e \<Rightarrow> is_Exception e))"
proof -
  from assms have gate: "list_all (can_run_rule s) (depends_on cfg)"
    by (auto simp add: process_validated_def split: if_splits)
  from assms gate obtain rule_module
    where im: "import_module env (''maps_workflow.'' @ module cfg) = Inr rule_module"
    by (cases "import_module env (''maps_workflow.'' @ module cfg)")
      (auto simp add: process_validated_def load_rule_from_module_def split: if_splits)
  from assms gate im obtain cls where cl: "rule_module (class_name cfg) = Some cls"
    by (cases "rule_module (class_name cfg)")
      (auto simp add: process_validated_def load_rule_from_module_def)
  from assms gate im cl obtain rule_func
    where ct: "cls (Some raw_file) (Some map_data) (params cfg) = Inr rule_func"
    by (cases "cls (Some raw_file) (Some map_data) (params cfg)")
      (auto simp add: process_validated_def load_rule_from_module_def Let_def)
  from assms gate im cl ct have tr: "truthy rule_func"
    by (auto simp add: process_validated_def load_rule_from_module_def Let_def split: if_splits)
  from assms have "evaluate_rule (emit (Call_construct (module cfg) (class_name cfg))
      (emits [Call_import (module cfg)] s)) cfg rule_func = Return b s'"
    using process_validated_resolved [OF gate im cl ct tr] by simp
  from evaluate_rule_Return [OF this] gate im cl ct tr show ?thesis by blast
qed

lemma process_rule_Return:
  assumes "process_rule env raw_file map_data s rule = Return b s'"
  shows "\<exists>kvs cfg. rule = YMap kvs \<and> validate env kvs = Some cfg \<and>
    process_validated env raw_file map_data s cfg = Return b s'"
  using assms
  by (auto simp add: process_rule_def Let_def split: yaml.splits option.splits)

lemma run_loop_Return:
  assumes "run_loop env raw_file map_data s0 config = Return b s'"
  shows "\<exists>earlier rule later s1. config = earlier @ rule # later \<and>
    run_loop env raw_file map_data s0 earlier = Continue s1 \<and>
    process_rule env raw_file map_data s1 rule = Return b s'"
  using assms
proof (induction config arbitrary: s0)
  case Nil
  then show ?case by simp
next
  case (Cons r rs)
  show ?case
  proof (cases "process_rule env raw_file map_data s0 r")
    case (Continue t)
    with Cons.prems have "run_loop env raw_file map_data t rs = Return b s'" by simp
    from Cons.IH [OF this] obtain earlier rule later s1
      where "rs = earlier @ rule # later"
        and "run_loop env raw_file map_data t earlier = Continue s1"
        and "process_rule env raw_file map_data s1 rule = Return b s'"
      by blast
    with Continue have "r # rs = (r # earlier) @ rule # later \<and>
        run_loop env raw_file map_data s0 (r # earlier) = Continue s1 \<and>
        process_rule env raw_file map_data s1 rule = Return b s'"
      by simp
    then show ?thesis by blast
  next
    case (Return b' t)
    with Cons.prems have "process_rule env raw_file map_data s0 r = Return b s'" by simp
    then have "r # rs = [] @ r # rs \<and> run_loop env raw_file map_data s0 [] = Continue s0 \<and>
        process_rule env raw_file map_data s0 r = Return b s'"
      by simp
    then show ?thesis by blast
  next
    case (Raise e t)
    with Cons.prems show ?thesis by simp
  qed
qed

lemma run_loop_Raise:
  assumes "run_loop env raw_file map_data s0 config = Raise e s'"
  shows "\<exists>earlier rule later s1. config = earlier @ rule # later \<and>
    run_loop env raw_file map_data s0 earlier = Continue s1 \<and>
    process_rule env raw_file map_data s1 rule = Raise e s'"
  using assms
proof (induction config arbitrary: s0)
  case Nil
  then show ?case by simp
next
  case (Cons r rs)
  show ?case
  proof (cases "process_rule env raw_file map_data s0 r")
    case (Continue t)
    with Cons.prems have "run_loop env raw_file map_data t rs = Raise e s'" by simp
    from Cons.IH [OF this] obtain earlier rule later s1
      where "rs = earlier @ rule # later"
        and "run_loop env raw_file map_data t earlier = Continue s1"
        and "process_rule env raw_file map_data s1 rule = Raise e s'"
      by blast
    with Continue have "r # rs = (r # earlier) @ rule # later \<and>
        run_loop env raw_file map_data s0 (r # earlier) = Continue s1 \<and>
        process_rule env raw_file map_data s1 rule = Raise e s'"
      by simp
    then show ?thesis by blast
  next
    case (Raise e' t)
    with Cons.prems have "process_rule env raw_file map_data s0 r = Raise e s'" by simp
    then have "r # rs = [] @ r # rs \<and> run_loop env raw_file map_data s0 [] = Continue s0 \<and>
        process_rule env raw_file map_data s0 r = Raise e s'"
      by simp
    then show ?thesis by blast
  next
    case (Return b t)
    with Cons.prems show ?thesis by simp
  qed
qed

lemma run_loop_cases:
  "(\<exists>s'. run_loop env raw_file map_data s0 config = Continue s') \<or>
   (\<exists>earlier rule later s1 b s'. config = earlier @ rule # later \<and>
      run_loop env raw_file map_data s0 earlier = Continue s1 \<and>
      process_rule env raw_file map_data s1 rule = Return b s') \<or>
   (\<exists>earlier rule later s1 e s'. config = earlier @ rule # later \<and>
      run_loop env raw_file map_data s0 earlier = Continue s1 \<and>
      process_rule env raw_file map_data s1 rule = Raise e s')"
proof (cases "run_loop env raw_file map_data s0 config")
  case (Continue s')
  then show ?thesis by simp
next
  case (Return b s')
  from run_loop_Return [OF this] show ?thesis by blast
next
  case (Raise e s')
  from run_loop_Raise [OF this] show ?thesis by blast
qed

subsection \<open>The status table\<close>

lemma evaluate_rule_Continue_value:
  assumes "evaluate_rule s cfg rule_func = Continue s'"
  shows "rule_status s' = (rule_status s)(YStr (name cfg) \<mapsto> (evaluate rule_func = Inr []))"
  using assms by (auto simp add: evaluate_rule_def Let_def split: sum.splits if_splits)

lemma process_validated_Continue_value:
  assumes "process_validated env raw_file map_data s cfg = Continue s'"
  shows "rule_status s' =
    (rule_status s)(YStr (name cfg) \<mapsto> descriptor_passes env raw_file map_data s cfg)"
proof (cases "list_all (can_run_rule s) (depends_on cfg)")
  case False
  with assms show ?thesis
    by (auto simp add: process_validated_def descriptor_passes_def)
next
  case gate: True
  show ?thesis
  proof (cases "import_module env (''maps_workflow.'' @ module cfg)")
    case (Inl e)
    with assms gate show ?thesis
      by (auto simp add: process_validated_def load_rule_from_module_def descriptor_passes_def
          resolved_instance_def split: if_splits)
  next
    case im: (Inr rule_module)
    show ?thesis
    proof (cases "rule_module (class_name cfg)")
      case None
      with assms gate im show ?thesis
        by (simp add: process_validated_def load_rule_from_module_def)
    next
      case cl: (Some cls)
      show ?thesis
      proof (cases "cls (Some raw_file) (Some map_data) (params cfg)")
        case (Inl e)
        with assms gate im cl show ?thesis
          by (simp add: process_validated_def load_rule_from_module_def Let_def)
      next
        case ct: (Inr rule_func)
        show ?thesis
        proof (cases "truthy rule_func")
          case False
          with assms gate im cl ct show ?thesis
            by (auto simp add: process_validated_def load_rule_from_module_def Let_def
                descriptor_passes_def resolved_instance_def)
        next
          case True
          from assms process_validated_resolved [OF gate im cl ct True]
          have "evaluate_rule (emit (Call_construct (module cfg) (class_name cfg))
              (emits [Call_import (module cfg)] s)) cfg rule_func = Continue s'"
            by simp
          from evaluate_rule_Continue_value [OF this] gate im cl ct True show ?thesis
            by (simp add: descriptor_passes_def resolved_instance_def)
        qed
      qed
    qed
  qed
qed

lemma process_rule_Continue_value:
  assumes "process_rule env raw_file map_data s rule = Continue s'"
  shows "\<exists>k. status_key env rule = Some k \<and>
    rule_status s' = (rule_status s)(k \<mapsto> rule_passes env raw_file map_data s rule)"
  using assms
  by (auto simp add: process_rule_def status_key_def rule_passes_def Let_def
      split: yaml.splits option.splits dest: process_validated_Continue_value)

lemma process_rule_Continue:
  assumes "process_rule env raw_file map_data s rule = Continue s'"
  shows "\<exists>k b. status_key env rule = Some k \<and> rule_status s' = (rule_status s)(k \<mapsto> b)"
  using process_rule_Continue_value [OF assms] by blast

lemma run_loop_keeps_entry:
  assumes "run_loop env raw_file map_data s rules = Continue s'"
    and "list_all (\<lambda>x. status_key env x \<noteq> Some k) rules"
  shows "rule_status s' k = rule_status s k"
  using assms
proof (induction rules arbitrary: s)
  case Nil
  then show ?case by simp
next
  case (Cons r rs)
  from Cons.prems(1) obtain t where step: "process_rule env raw_file map_data s r = Continue t"
    and rest: "run_loop env raw_file map_data t rs = Continue s'"
    by (auto split: outcome.splits)
  from process_rule_Continue [OF step] obtain k' b
    where "status_key env r = Some k'" and "rule_status t = (rule_status s)(k' \<mapsto> b)"
    by blast
  with Cons.prems(2) have "rule_status t k = rule_status s k" by auto
  moreover from Cons.IH [OF rest] Cons.prems(2) have "rule_status s' k = rule_status t k" by simp
  ultimately show ?case by simp
qed

lemma run_loop_dom_mono:
  assumes "run_loop env raw_file map_data s rules = Continue s'"
  shows "dom (rule_status s) \<subseteq> dom (rule_status s')"
  using assms
proof (induction rules arbitrary: s)
  case Nil
  then show ?case by simp
next
  case (Cons r rs)
  from Cons.prems obtain t where step: "process_rule env raw_file map_data s r = Continue t"
    and rest: "run_loop env raw_file map_data t rs = Continue s'"
    by (auto split: outcome.splits)
  from process_rule_Continue [OF step] have "dom (rule_status s) \<subseteq> dom (rule_status t)"
    by auto
  with Cons.IH [OF rest] show ?case by blast
qed

subsection \<open>The loader's loop\<close>

lemma load_loop_selected:
  assumes "list_all (has_rule_list fs directory) (filter (selected exclude) files)"
  shows "load_loop fs directory exclude all_rules files =
    Inr (all_rules @ concat (map (rule_list fs directory) (filter (selected exclude) files)))"
  using assms
proof (induction files arbitrary: all_rules)
  case Nil
  then show ?case by simp
next
  case (Cons f fs')
  show ?case
  proof (cases "selected exclude f")
    case False
    with Cons show ?thesis by (auto simp add: selected_def)
  next
    case True
    with Cons.prems have ok: "has_rule_list fs directory f"
      and rest: "list_all (has_rule_list fs directory) (filter (selected exclude) fs')"
      by simp_all
    from ok obtain doc where ld: "yaml_load fs (os_path_join directory f) = Inr (YMap doc)"
      by (cases "yaml_load fs (os_path_join directory f)")
        (auto simp add: has_rule_list_def split: yaml.splits)
    from ok ld obtain v where rv: "map_of doc ''rules'' = Some v"
      by (cases "map_of doc ''rules''") (auto simp add: has_rule_list_def)
    from ok ld rv obtain rs where rl: "map_of doc ''rules'' = Some (YSeq rs)"
      by (cases v) (auto simp add: has_rule_list_def)
    from ld rl have "rule_list fs directory f = rs"
      by (simp add: rule_list_def)
    with True ld rl Cons.IH [OF rest] show ?thesis
      by (simp add: selected_def load_rules_from_file_def)
  qed
qed

lemma declaration_files_filter_sort:
  assumes "distinct names"
  shows "declaration_files names exclude = filter (selected exclude) (sort names)"
proof -
  let ?xs = "filter (selected exclude) (sort names)"
  have s: "sorted ?xs" by (simp add: sorted_wrt_filter)
  have d: "distinct ?xs" using assms by simp
  have "set ?xs = {f \<in> set names. suffix ''.yaml'' f \<and> \<not> (\<exists>p \<in> set exclude. prefix p f)}"
    by (auto simp add: selected_def excluded_def list_ex_iff)
  then have "declaration_files names exclude = sorted_list_of_set (set ?xs)"
    by (simp add: declaration_files_def)
  also have "\<dots> = ?xs" using s d by (rule sorted_list_of_set.idem_if_sorted_distinct)
  finally show ?thesis .
qed

lemma example_listing:
  "declaration_files [''b.yaml'', ''skip_c.yaml'', ''notes.txt'', ''a.yaml''] [''skip'']
     = [''a.yaml'', ''b.yaml'']"
proof -
  have "distinct [''b.yaml'', ''skip_c.yaml'', ''notes.txt'', ''a.yaml'']" by simp
  from declaration_files_filter_sort [OF this]
  have "declaration_files [''b.yaml'', ''skip_c.yaml'', ''notes.txt'', ''a.yaml''] [''skip'']
      = filter (selected [''skip'']) (sort [''b.yaml'', ''skip_c.yaml'', ''notes.txt'', ''a.yaml''])" .
  also have "\<dots> = [''a.yaml'', ''b.yaml'']" by code_simp
  finally show ?thesis .
qed

section \<open>Claims\<close>

text \<open>
  C1. A descriptor of policy \<open>require\<close> that validates, passes its dependency gate,
  resolves, and whose evaluation returns one or more violations: execute_rules records
  its status as false and returns False, whatever descriptors follow it; the status
  table is the one the descriptor was reached with plus this entry, and the whole result
  is that of the run without the later descriptors.
\<close>

theorem C1_require_violation_aborts:
  assumes "run_loop env raw_file map_data initial_state earlier = Continue s"
    and "validate env kvs = Some cfg"
    and "type cfg = ''require''"
    and "list_all (can_run_rule s) (depends_on cfg)"
    and "import_module env (''maps_workflow.'' @ module cfg) = Inr rule_module"
    and "rule_module (class_name cfg) = Some cls"
    and "cls (Some raw_file) (Some map_data) (params cfg) = Inr rule_func"
    and "truthy rule_func"
    and "evaluate rule_func = Inr violations"
    and "violations \<noteq> []"
  shows "\<exists>s'. execute_rules raw_file map_data env (earlier @ YMap kvs # later) = Returned False s' \<and>
    rule_status s' = (rule_status s)(YStr (name cfg) \<mapsto> False) \<and>
    execute_rules raw_file map_data env (earlier @ [YMap kvs]) = Returned False s'"
proof -
  have pv: "process_validated env raw_file map_data s cfg =
      evaluate_rule (emit (Call_construct (module cfg) (class_name cfg))
        (emits [Call_import (module cfg)] s)) cfg rule_func"
    using assms(4-8) by (rule process_validated_resolved)
  obtain s' where st: "rule_status s' = (rule_status s)(YStr (name cfg) \<mapsto> False)"
    and ev: "process_validated env raw_file map_data s cfg = Return False s'"
    using evaluate_rule_violations [OF assms(9,10), of "emit (Call_construct (module cfg) (class_name cfg))
        (emits [Call_import (module cfg)] s)" cfg] assms(3) pv by auto
  have step: "process_rule env raw_file map_data s (YMap kvs) = Return False s'"
    using assms(2) ev by (simp add: process_rule_def)
  have "run_loop env raw_file map_data initial_state (earlier @ YMap kvs # rest) = Return False s'" for rest
    using run_loop_append [OF assms(1)] step by simp
  then show ?thesis using st by (auto simp add: execute_rules_def)
qed

theorem C1_require_violation_aborts_witness:
  "run_loop example_env ''m.map'' () initial_state [YMap (rule_entry ''p'' ''Passes'' ''fail'' [])]
     = Continue state_after_p \<and>
   validate example_env (rule_entry ''a'' ''Violates'' ''require'' [''p''])
     = Some (cfg_of ''a'' ''Violates'' ''require'' [''p'']) \<and>
   list_all (can_run_rule state_after_p) [''p''] \<and>
   (\<exists>s'. execute_rules ''m.map'' () example_env
       ([YMap (rule_entry ''p'' ''Passes'' ''fail'' [])] @
         YMap (rule_entry ''a'' ''Violates'' ''require'' [''p'']) #
         [YMap (rule_entry ''b'' ''Passes'' ''fail'' [])]) = Returned False s' \<and>
     rule_status s' = (rule_status state_after_p)(YStr ''a'' \<mapsto> False))"
proof -
  let ?cfg = "cfg_of ''a'' ''Violates'' ''require'' [''p'']"
  let ?inst = "instance_of (Inr [''bad tile''])"
  have h1: "run_loop example_env ''m.map'' () initial_state
      [YMap (rule_entry ''p'' ''Passes'' ''fail'' [])] = Continue state_after_p"
    by (simp add: engine_defs example_defs state_after_p_def)
  have h2: "validate example_env (rule_entry ''a'' ''Violates'' ''require'' [''p'']) = Some ?cfg"
    by (simp add: example_defs cfg_of_def)
  have h3: "type ?cfg = ''require''"
    by (simp add: cfg_of_def)
  have h4: "list_all (can_run_rule state_after_p) (depends_on ?cfg)"
    by (simp add: cfg_of_def can_run_rule_def state_after_p_def)
  have h5: "import_module example_env (''maps_workflow.'' @ module ?cfg) = Inr checks_module"
    by (simp add: cfg_of_def example_env_def example_import_def)
  have h6: "checks_module (class_name ?cfg) = Some (const_rule (Inr [''bad tile'']))"
    by (simp add: cfg_of_def checks_module_def)
  have h7: "const_rule (Inr [''bad tile'']) (Some ''m.map'') (Some ()) (params ?cfg) = Inr ?inst"
    by (simp add: const_rule_def instance_of_def)
  have h8: "truthy ?inst"
    by (simp add: instance_of_def)
  have h9: "evaluate ?inst = Inr [''bad tile'']"
    by (simp add: instance_of_def)
  have h10: "[''bad tile''] \<noteq> []"
    by simp
  from C1_require_violation_aborts [OF h1 h2 h3 h4 h5 h6 h7 h8 h9 h10,
      of "[YMap (rule_entry ''b'' ''Passes'' ''fail'' [])]"]
  have c: "\<exists>s'. execute_rules ''m.map'' () example_env
       ([YMap (rule_entry ''p'' ''Passes'' ''fail'' [])] @
         YMap (rule_entry ''a'' ''Violates'' ''require'' [''p'']) #
         [YMap (rule_entry ''b'' ''Passes'' ''fail'' [])]) = Returned False s' \<and>
     rule_status s' = (rule_status state_after_p)(YStr ''a'' \<mapsto> False)"
    by (auto simp add: cfg_of_def)
  from h4 have h4': "list_all (can_run_rule state_after_p) [''p'']"
    by (simp add: cfg_of_def)
  show ?thesis using h1 h2 h4' c by blast
qed

text \<open>
  C2. A descriptor whose \<open>depends_on\<close> holds a name that the status table lacks, or
  holds with the value false, when the descriptor is processed: its status becomes false,
  the only event of the step is the skip message (no import, no construction, no
  evaluation), and the loop goes on with the next descriptor.
\<close>

theorem C2_unmet_dependency_blocks:
  assumes "validate env kvs = Some cfg"
    and "dep \<in> set (depends_on cfg)"
    and "rule_status s (YStr dep) \<noteq> Some True"
  shows "\<exists>s'. process_rule env raw_file map_data s (YMap kvs) = Continue s' \<and>
    rule_status s' = (rule_status s)(YStr (name cfg) \<mapsto> False) \<and>
    trace s' = trace s @ [Log_skipping (name cfg)] \<and>
    run_loop env raw_file map_data s (YMap kvs # rest) = run_loop env raw_file map_data s' rest"
  using assms(1) gate_fails [OF assms(2,3)]
  by (simp add: process_rule_def process_validated_def)

theorem C2_unmet_dependency_blocks_witness:
  "validate example_env (rule_entry ''c'' ''Passes'' ''skip'' [''p'', ''b''])
     = Some (cfg_of ''c'' ''Passes'' ''skip'' [''p'', ''b'']) \<and>
   ''b'' \<in> set [''p'', ''b''] \<and>
   rule_status state_after_p (YStr ''b'') \<noteq> Some True \<and>
   (\<exists>s'. process_rule example_env ''m.map'' () state_after_p
        (YMap (rule_entry ''c'' ''Passes'' ''skip'' [''p'', ''b''])) = Continue s' \<and>
      rule_status s' = (rule_status state_after_p)(YStr ''c'' \<mapsto> False) \<and>
      trace s' = trace state_after_p @ [Log_skipping ''c''])"
proof -
  let ?cfg = "cfg_of ''c'' ''Passes'' ''skip'' [''p'', ''b'']"
  have h1: "validate example_env (rule_entry ''c'' ''Passes'' ''skip'' [''p'', ''b'']) = Some ?cfg"
    by (simp add: example_defs cfg_of_def)
  have h2: "''b'' \<in> set (depends_on ?cfg)"
    by (simp add: cfg_of_def)
  have h3: "rule_status state_after_p (YStr ''b'') \<noteq> Some True"
    by (simp add: state_after_p_def)
  from C2_unmet_dependency_blocks [OF h1 h2 h3, of "''m.map''" "()" "[]"]
  have c: "\<exists>s'. process_rule example_env ''m.map'' () state_after_p
        (YMap (rule_entry ''c'' ''Passes'' ''skip'' [''p'', ''b''])) = Continue s' \<and>
      rule_status s' = (rule_status state_after_p)(YStr ''c'' \<mapsto> False) \<and>
      trace s' = trace state_after_p @ [Log_skipping ''c'']"
    by (auto simp add: cfg_of_def)
  from h2 have h2': "''b'' \<in> set [''p'', ''b'']"
    by (simp add: cfg_of_def)
  show ?thesis using h1 h2' h3 c by blast
qed

text \<open>
  C3. A rule whose evaluation raises an error should get the status false and the policy
  dispatch of the violation path. Here the first rule of the run has policy \<open>fail\<close> and
  its evaluation raises: the status false is stored, and then the handler's message reads
  \<open>rule_time_elapsed\<close>, which no evaluation has assigned yet, so UnboundLocalError leaves
  execute_rules and the second descriptor is never processed.
\<close>

theorem C3_error_before_first_evaluation_raises:
  "execute_rules ''m.map'' () example_env
     [YMap (rule_entry ''e'' ''Errors'' ''fail'' []), YMap (rule_entry ''b'' ''Passes'' ''fail'' [])]
   = Raised UnboundLocalError
       \<lparr>rule_status = [YStr ''e'' \<mapsto> False], elapsed_bound = False,
        trace = [Call_import ''checks'', Call_construct ''checks'' ''Errors'', Call_evaluate ''e'']\<rparr>"
  by (simp add: execute_rules_def engine_defs example_defs)

text \<open>
  C4. A descriptor whose module resolves but whose class the module lacks should be
  recorded as failed, with a "not found" warning, and the run should go on. Here
  \<open>getattr\<close> gives None and the call of None raises TypeError out of execute_rules:
  nothing is recorded, no warning is logged, the second descriptor is never processed.
\<close>

theorem C4_absent_class_raises_TypeError:
  "execute_rules ''m.map'' () example_env
     [YMap (rule_entry ''a'' ''Missing'' ''fail'' []), YMap (rule_entry ''b'' ''Passes'' ''fail'' [])]
   = Raised TypeError
       \<lparr>rule_status = Map.empty, elapsed_bound = False, trace = [Call_import ''checks'']\<rparr>"
  by (simp add: execute_rules_def engine_defs example_defs)

text \<open>
  C5. A raw mapping that fails validation should be recorded as failed and the run should
  go on. Here the first entry has no \<open>name\<close>: after the validation error is logged, the
  handler's \<open>rule['name']\<close> raises KeyError out of execute_rules; nothing is recorded
  and the second descriptor is never processed.
\<close>

theorem C5_entry_without_name_raises_KeyError:
  "execute_rules ''m.map'' () example_env
     [YMap [(''module'', YStr ''checks''), (''class_name'', YStr ''Passes''), (''type'', YStr ''fail'')],
      YMap (rule_entry ''b'' ''Passes'' ''fail'' [])]
   = Raised KeyError
       \<lparr>rule_status = Map.empty, elapsed_bound = False, trace = [Log_validation_error]\<rparr>"
  by (simp add: execute_rules_def engine_defs example_defs)

text \<open>
  C6. A descriptor of policy \<open>fail\<close> or \<open>skip\<close> that validates, passes its gate,
  resolves, and whose evaluation returns one or more violations: the step does not end
  the run, the status table gets the entry false for its name, and the loop goes on with
  the next descriptor from that state.
\<close>

theorem C6_fail_skip_violation_continues:
  assumes "validate env kvs = Some cfg"
    and "type cfg = ''fail'' \<or> type cfg = ''skip''"
    and "list_all (can_run_rule s) (depends_on cfg)"
    and "import_module env (''maps_workflow.'' @ module cfg) = Inr rule_module"
    and "rule_module (class_name cfg) = Some cls"
    and "cls (Some raw_file) (Some map_data) (params cfg) = Inr rule_func"
    and "truthy rule_func"
    and "evaluate rule_func = Inr violations"
    and "violations \<noteq> []"
  shows "\<exists>s'. process_rule env raw_file map_data s (YMap kvs) = Continue s' \<and>
    rule_status s' = (rule_status s)(YStr (name cfg) \<mapsto> False) \<and>
    run_loop env raw_file map_data s (YMap kvs # rest) = run_loop env raw_file map_data s' rest"
proof -
  let ?s1 = "emit (Call_construct (module cfg) (class_name cfg)) (emits [Call_import (module cfg)] s)"
  have pv: "process_validated env raw_file map_data s cfg = evaluate_rule ?s1 cfg rule_func"
    using assms(3-7) by (rule process_validated_resolved)
  obtain s' where st: "rule_status s' = (rule_status s)(YStr (name cfg) \<mapsto> False)"
    and ev: "evaluate_rule ?s1 cfg rule_func = Continue s'"
    using evaluate_rule_violations_continue [OF assms(8,9,2), of ?s1] by auto
  have "process_rule env raw_file map_data s (YMap kvs) = Continue s'"
    using assms(1) pv ev by (simp add: process_rule_def)
  then show ?thesis using st by simp
qed

theorem C6_fail_skip_violation_continues_witness:
  "validate example_env (rule_entry ''b'' ''Violates'' ''fail'' [''p''])
     = Some (cfg_of ''b'' ''Violates'' ''fail'' [''p'']) \<and>
   list_all (can_run_rule state_after_p) [''p''] \<and>
   (\<exists>s'. process_rule example_env ''m.map'' () state_after_p
        (YMap (rule_entry ''b'' ''Violates'' ''fail'' [''p''])) = Continue s' \<and>
      rule_status s' = (rule_status state_after_p)(YStr ''b'' \<mapsto> False))"
proof -
  let ?cfg = "cfg_of ''b'' ''Violates'' ''fail'' [''p'']"
  let ?inst = "instance_of (Inr [''bad tile''])"
  have h1: "validate example_env (rule_entry ''b'' ''Violates'' ''fail'' [''p'']) = Some ?cfg"
    by (simp add: example_defs cfg_of_def)
  have h2: "type ?cfg = ''fail'' \<or> type ?cfg = ''skip''"
    by (simp add: cfg_of_def)
  have h3: "list_all (can_run_rule state_after_p) (depends_on ?cfg)"
    by (simp add: cfg_of_def can_run_rule_def state_after_p_def)
  have h4: "import_module example_env (''maps_workflow.'' @ module ?cfg) = Inr checks_module"
    by (simp add: cfg_of_def example_env_def example_import_def)
  have h5: "checks_module (class_name ?cfg) = Some (const_rule (Inr [''bad tile'']))"
    by (simp add: cfg_of_def checks_module_def)
  have h6: "const_rule (Inr [''bad tile'']) (Some ''m.map'') (Some ()) (params ?cfg) = Inr ?inst"
    by (simp add: const_rule_def instance_of_def)
  have h7: "truthy ?inst"
    by (simp add: instance_of_def)
  have h8: "evaluate ?inst = Inr [''bad tile'']"
    by (simp add: instance_of_def)
  have h9: "[''bad tile''] \<noteq> []"
    by simp
  from C6_fail_skip_violation_continues [OF h1 h2 h3 h4 h5 h6 h7 h8 h9, of "[]"]
  have c: "\<exists>s'. process_rule example_env ''m.map'' () state_after_p
        (YMap (rule_entry ''b'' ''Violates'' ''fail'' [''p''])) = Continue s' \<and>
      rule_status s' = (rule_status state_after_p)(YStr ''b'' \<mapsto> False)"
    by (auto simp add: cfg_of_def)
  from h3 have h3': "list_all (can_run_rule state_after_p) [''p'']"
    by (simp add: cfg_of_def)
  show ?thesis using h1 h3' c by blast
qed

text \<open>
  C7. For every environment and artifact: (1) a rule that validates, passes its gate,
  resolves, and whose evaluation returns no violation gets the status true, and the loop
  goes on from that state; (2) a run of execute_rules that returns False has reached a
  descriptor of policy \<open>require\<close> that resolved and was evaluated with a violation or
  an error; (3) every run returns True, or has reached such a descriptor, or has reached
  a descriptor whose processing raised. So whenever every descriptor is processed and
  none is a \<open>require\<close> failure or error, execute_rules returns True. The three parts
  have their own hypotheses; none depends on another's.
\<close>

theorem C7_zero_violations_pass:
  "(validate env kvs = Some cfg \<and>
    list_all (can_run_rule s) (depends_on cfg) \<and>
    import_module env (''maps_workflow.'' @ module cfg) = Inr rule_module \<and>
    rule_module (class_name cfg) = Some cls \<and>
    cls (Some raw_file) (Some map_data) (params cfg) = Inr rule_func \<and>
    truthy rule_func \<and>
    evaluate rule_func = Inr [] \<longrightarrow>
    (\<exists>s'. process_rule env raw_file map_data s (YMap kvs) = Continue s' \<and>
      rule_status s' = (rule_status s)(YStr (name cfg) \<mapsto> True) \<and>
      run_loop env raw_file map_data s (YMap kvs # rest) = run_loop env raw_file map_data s' rest)) \<and>
   (execute_rules raw_file map_data env config = Returned b s_end \<longrightarrow>
    b \<or>
    (\<exists>earlier kvs' later s1 cfg' rule_module' cls' rule_func'.
       config = earlier @ YMap kvs' # later \<and>
       run_loop env raw_file map_data initial_state earlier = Continue s1 \<and>
       validate env kvs' = Some cfg' \<and> type cfg' = ''require'' \<and>
       list_all (can_run_rule s1) (depends_on cfg') \<and>
       import_module env (''maps_workflow.'' @ module cfg') = Inr rule_module' \<and>
       rule_module' (class_name cfg') = Some cls' \<and>
       cls' (Some raw_file) (Some map_data) (params cfg') = Inr rule_func' \<and>
       truthy rule_func' \<and>
       (case evaluate rule_func' of Inr vs \<Rightarrow> vs \<noteq> [] | Inl e \<Rightarrow> is_Exception e))) \<and>
   ((\<exists>s_last. execute_rules raw_file map_data env config = Returned True s_last) \<or>
    (\<exists>earlier kvs' later s1 cfg' rule_module' cls' rule_func'.
       config = earlier @ YMap kvs' # later \<and>
       run_loop env raw_file map_data initial_state earlier = Continue s1 \<and>
       validate env kvs' = Some cfg' \<and> type cfg' = ''require'' \<and>
       list_all (can_run_rule s1) (depends_on cfg') \<and>
       import_module env (''maps_workflow.'' @ module cfg') = Inr rule_module' \<and>
       rule_module' (class_name cfg') = Some cls' \<and>
       cls' (Some raw_file) (Some map_data) (params cfg') = Inr rule_func' \<and>
       truthy rule_func' \<and>
       (case evaluate rule_func' of Inr vs \<Rightarrow> vs \<noteq> [] | Inl e \<Rightarrow> is_Exception e)) \<or>
    (\<exists>earlier rule later s1 e s'.
       config = earlier @ rule # later \<and>
       run_loop env raw_file map_data initial_state earlier = Continue s1 \<and>
       process_rule env raw_file map_data s1 rule = Raise e s'))"
  (is "(?H1 \<longrightarrow> ?C1) \<and> (?H2 \<longrightarrow> b \<or> ?RF) \<and> (?T \<or> ?RF \<or> ?CR)")
proof -
  have rf: ?RF
    if r: "run_loop env raw_file map_data initial_state earlier = Continue s1"
      and c: "config = earlier @ rule # later"
      and p: "process_rule env raw_file map_data s1 rule = Return b' t"
    for earlier rule later s1 b' t
  proof -
    from process_rule_Return [OF p] obtain kvs' cfg'
      where k: "rule = YMap kvs'" and v: "validate env kvs' = Some cfg'"
        and pv: "process_validated env raw_file map_data s1 cfg' = Return b' t"
      by blast
    from process_validated_Return [OF pv] c r k v show ?thesis by blast
  qed
  have part1: "?H1 \<longrightarrow> ?C1"
  proof
    assume h: ?H1
    let ?s1 = "emit (Call_construct (module cfg) (class_name cfg)) (emits [Call_import (module cfg)] s)"
    from h have v: "validate env kvs = Some cfg"
      and g: "list_all (can_run_rule s) (depends_on cfg)"
      and im: "import_module env (''maps_workflow.'' @ module cfg) = Inr rule_module"
      and cl: "rule_module (class_name cfg) = Some cls"
      and ct: "cls (Some raw_file) (Some map_data) (params cfg) = Inr rule_func"
      and tr: "truthy rule_func"
      and ev0: "evaluate rule_func = Inr []"
      by blast+
    have pv: "process_validated env raw_file map_data s cfg = evaluate_rule ?s1 cfg rule_func"
      using g im cl ct tr by (rule process_validated_resolved)
    obtain s' where st: "rule_status s' = (rule_status s)(YStr (name cfg) \<mapsto> True)"
      and ev: "evaluate_rule ?s1 cfg rule_func = Continue s'"
      using evaluate_rule_passes [OF ev0, of ?s1 cfg] by auto
    have "process_rule env raw_file map_data s (YMap kvs) = Continue s'"
      using v pv ev by (simp add: process_rule_def)
    then show ?C1 using st by simp
  qed
  have part2: "?H2 \<longrightarrow> b \<or> ?RF"
  proof
    assume h: ?H2
    show "b \<or> ?RF"
    proof (cases b)
      case True
      then show ?thesis by simp
    next
      case False
      with h have "run_loop env raw_file map_data initial_state config = Return False s_end"
        by (auto simp add: execute_rules_def split: outcome.splits)
      from run_loop_Return [OF this] obtain earlier rule later s1
        where "config = earlier @ rule # later"
          and "run_loop env raw_file map_data initial_state earlier = Continue s1"
          and "process_rule env raw_file map_data s1 rule = Return False s_end"
        by blast
      then have ?RF by (intro rf)
      then show ?thesis by simp
    qed
  qed
  have part3: "?T \<or> ?RF \<or> ?CR"
  proof -
    from run_loop_cases [of env raw_file map_data initial_state config]
    consider (completed) s' where "run_loop env raw_file map_data initial_state config = Continue s'"
      | (stopped) earlier rule later s1 b' t where "config = earlier @ rule # later"
          "run_loop env raw_file map_data initial_state earlier = Continue s1"
          "process_rule env raw_file map_data s1 rule = Return b' t"
      | (raised) ?CR
      by blast
    then show ?thesis
    proof cases
      case completed
      then have ?T by (simp add: execute_rules_def)
      then show ?thesis by simp
    next
      case stopped
      then have ?RF by (intro rf)
      then show ?thesis by simp
    next
      case raised
      then show ?thesis by simp
    qed
  qed
  from part1 part2 part3 show ?thesis by (intro conjI)
qed

theorem C7_zero_violations_pass_witness:
  "validate example_env (rule_entry ''q'' ''Passes'' ''require'' [''p''])
     = Some (cfg_of ''q'' ''Passes'' ''require'' [''p'']) \<and>
   list_all (can_run_rule state_after_p) [''p''] \<and>
   (\<exists>s'. process_rule example_env ''m.map'' () state_after_p
        (YMap (rule_entry ''q'' ''Passes'' ''require'' [''p''])) = Continue s' \<and>
      rule_status s' = (rule_status state_after_p)(YStr ''q'' \<mapsto> True)) \<and>
   execute_rules ''m.map'' () example_env [YMap (rule_entry ''p'' ''Passes'' ''fail'' [])]
     = Returned True (emit Log_all_processed state_after_p) \<and>
   (\<exists>s_end. execute_rules ''m.map'' () example_env
        [YMap (rule_entry ''p'' ''Passes'' ''fail'' []),
         YMap (rule_entry ''a'' ''Violates'' ''require'' [''p''])] = Returned False s_end) \<and>
   (\<exists>earlier kvs' later s1 cfg'.
      [YMap (rule_entry ''p'' ''Passes'' ''fail'' []),
       YMap (rule_entry ''a'' ''Violates'' ''require'' [''p''])] = earlier @ YMap kvs' # later \<and>
      run_loop example_env ''m.map'' () initial_state earlier = Continue s1 \<and>
      validate example_env kvs' = Some cfg' \<and> type cfg' = ''require'')"
proof -
  let ?cfg = "cfg_of ''q'' ''Passes'' ''require'' [''p'']"
  let ?inst = "instance_of (Inr [])"
  let ?failing = "[YMap (rule_entry ''p'' ''Passes'' ''fail'' []),
       YMap (rule_entry ''a'' ''Violates'' ''require'' [''p''])]"
  have h1: "validate example_env (rule_entry ''q'' ''Passes'' ''require'' [''p'']) = Some ?cfg"
    by (simp add: example_defs cfg_of_def)
  have h2: "list_all (can_run_rule state_after_p) (depends_on ?cfg)"
    by (simp add: cfg_of_def can_run_rule_def state_after_p_def)
  have h3: "import_module example_env (''maps_workflow.'' @ module ?cfg) = Inr checks_module"
    by (simp add: cfg_of_def example_env_def example_import_def)
  have h4: "checks_module (class_name ?cfg) = Some (const_rule (Inr []))"
    by (simp add: cfg_of_def checks_module_def)
  have h5: "const_rule (Inr []) (Some ''m.map'') (Some ()) (params ?cfg) = Inr ?inst"
    by (simp add: const_rule_def instance_of_def)
  have h6: "truthy ?inst"
    by (simp add: instance_of_def)
  have h7: "evaluate ?inst = Inr []"
    by (simp add: instance_of_def)
  have ok: "execute_rules ''m.map'' () example_env [YMap (rule_entry ''p'' ''Passes'' ''fail'' [])]
     = Returned True (emit Log_all_processed state_after_p)"
    by (simp add: execute_rules_def engine_defs example_defs state_after_p_def)
  have "\<exists>s_end. execute_rules ''m.map'' () example_env ?failing = Returned False s_end"
    by (simp add: execute_rules_def engine_defs example_defs)
  then obtain s_end where bad: "execute_rules ''m.map'' () example_env ?failing = Returned False s_end"
    by blast
  note inst = C7_zero_violations_pass [of example_env
      "rule_entry ''q'' ''Passes'' ''require'' [''p'']" ?cfg state_after_p checks_module
      "const_rule (Inr [])" "''m.map''" "()" ?inst "[]" ?failing False s_end]
  from inst h1 h2 h3 h4 h5 h6 h7
  have c1: "\<exists>s'. process_rule example_env ''m.map'' () state_after_p
        (YMap (rule_entry ''q'' ''Passes'' ''require'' [''p''])) = Continue s' \<and>
      rule_status s' = (rule_status state_after_p)(YStr ''q'' \<mapsto> True)"
    by (auto simp add: cfg_of_def)
  from inst bad
  have c2: "\<exists>earlier kvs' later s1 cfg'.
      ?failing = earlier @ YMap kvs' # later \<and>
      run_loop example_env ''m.map'' () initial_state earlier = Continue s1 \<and>
      validate example_env kvs' = Some cfg' \<and> type cfg' = ''require''"
    by blast
  from h2 have h2': "list_all (can_run_rule state_after_p) [''p'']"
    by (simp add: cfg_of_def)
  from bad have bad': "\<exists>s_end. execute_rules ''m.map'' () example_env ?failing = Returned False s_end"
    by blast
  show ?thesis using h1 h2' c1 ok bad' c2 by blast
qed

text \<open>
  C8. When the directory's names are distinct and each of its declaration files parses to
  a mapping with a sequence under \<open>rules\<close>, load_all_rules returns the concatenation of
  the rule lists of the declaration files, in lexicographic order of the file names:
  names that start with an excluded prefix or do not end in ".yaml" contribute nothing.
\<close>

theorem C8_loader_concatenates_in_order:
  assumes "os_listdir fs directory = Inr names"
    and "distinct names"
    and "list_all (has_rule_list fs directory) (declaration_files names exclude)"
  shows "load_all_rules fs directory exclude =
    Inr (concat (map (rule_list fs directory) (declaration_files names exclude)))"
  using assms(1) load_loop_selected [of fs directory exclude "sort names" "[]"] assms(3)
  by (simp add: load_all_rules_def declaration_files_filter_sort [OF assms(2)])

theorem C8_loader_concatenates_in_order_witness:
  "os_listdir example_fs ''rules/'' = Inr [''b.yaml'', ''skip_c.yaml'', ''notes.txt'', ''a.yaml''] \<and>
   distinct [''b.yaml'', ''skip_c.yaml'', ''notes.txt'', ''a.yaml''] \<and>
   declaration_files [''b.yaml'', ''skip_c.yaml'', ''notes.txt'', ''a.yaml''] [''skip'']
     = [''a.yaml'', ''b.yaml''] \<and>
   list_all (has_rule_list example_fs ''rules/'') [''a.yaml'', ''b.yaml''] \<and>
   load_all_rules example_fs ''rules/'' [''skip''] =
     Inr [YMap (rule_entry ''p'' ''Passes'' ''fail'' []),
          YMap (rule_entry ''q'' ''Violates'' ''skip'' []),
          YMap (rule_entry ''r'' ''Passes'' ''require'' [''p''])]"
proof -
  let ?names = "[''b.yaml'', ''skip_c.yaml'', ''notes.txt'', ''a.yaml'']"
  have h1: "os_listdir example_fs ''rules/'' = Inr ?names"
    by (simp add: example_fs_def)
  have h2: "distinct ?names"
    by simp
  note l = example_listing
  have h3': "list_all (has_rule_list example_fs ''rules/'') [''a.yaml'', ''b.yaml'']"
    by (simp add: has_rule_list_def example_fs_def os_path_join_def suffix_to_prefix)
  then have h3: "list_all (has_rule_list example_fs ''rules/'') (declaration_files ?names [''skip''])"
    by (simp only: l)
  have r: "concat (map (rule_list example_fs ''rules/'') [''a.yaml'', ''b.yaml'']) =
      [YMap (rule_entry ''p'' ''Passes'' ''fail'' []),
       YMap (rule_entry ''q'' ''Violates'' ''skip'' []),
       YMap (rule_entry ''r'' ''Passes'' ''require'' [''p''])]"
    by (simp add: rule_list_def example_fs_def os_path_join_def suffix_to_prefix)
  from C8_loader_concatenates_in_order [OF h1 h2 h3]
  have c: "load_all_rules example_fs ''rules/'' [''skip''] =
     Inr [YMap (rule_entry ''p'' ''Passes'' ''fail'' []),
          YMap (rule_entry ''q'' ''Violates'' ''skip'' []),
          YMap (rule_entry ''r'' ''Passes'' ''require'' [''p''])]"
    by (simp only: l r)
  show ?thesis using h1 h2 l h3' c by blast
qed

text \<open>
  C9. Documentation generation should never abort and should omit a descriptor whose
  class the resolved module lacks. Here the second descriptor of the declaration file
  names a class its module lacks: the call of None raises TypeError out of
  generate_rules_file, and no list is returned, not even the entry of the first rule.
\<close>

theorem C9_generation_absent_class_raises_TypeError:
  "generate_rules_file example_fs example_env
   = GenRaised TypeError
       [Call_import ''checks'', Call_construct ''checks'' ''Passes'', Call_explain ''p'',
        Call_import ''checks'']"
  by (simp add: generate_rules_file_def load_all_rules_def example_fs_def excluded_def
      os_path_join_def suffix_to_prefix load_rules_from_file_def load_rule_from_module_def
      example_defs)

text \<open>
  C10. A step that goes on stores the descriptor's own outcome under the descriptor's key,
  over whatever the table held there: the entry becomes true exactly when this
  descriptor's evaluation was reached and returned no violation, and false otherwise. No
  step removes a key. So after any further descriptors, none of which bears that key, the
  table holds this descriptor's outcome for the key: at the end of the run it is the
  outcome of the last descriptor bearing the name, and a dependent processed between two
  descriptors of one name is gated on the outcome of the earlier one.
\<close>

theorem C10_duplicate_names_last_wins:
  assumes "process_rule env raw_file map_data s1 rule = Continue s2"
    and "status_key env rule = Some k"
    and "run_loop env raw_file map_data s2 between = Continue s3"
    and "list_all (\<lambda>x. status_key env x \<noteq> Some k) between"
  shows "rule_status s2 = (rule_status s1)(k \<mapsto> rule_passes env raw_file map_data s1 rule) \<and>
    rule_status s3 k = Some (rule_passes env raw_file map_data s1 rule) \<and>
    dom (rule_status s1) \<subseteq> dom (rule_status s3) \<and>
    (\<forall>n. k = YStr n \<longrightarrow> can_run_rule s3 n = rule_passes env raw_file map_data s1 rule)"
proof -
  let ?b = "rule_passes env raw_file map_data s1 rule"
  from process_rule_Continue_value [OF assms(1)] assms(2)
  have upd: "rule_status s2 = (rule_status s1)(k \<mapsto> ?b)"
    by auto
  from run_loop_keeps_entry [OF assms(3,4)] upd have fin: "rule_status s3 k = Some ?b"
    by simp
  from upd have "dom (rule_status s1) \<subseteq> dom (rule_status s2)"
    by auto
  with run_loop_dom_mono [OF assms(3)] have mono: "dom (rule_status s1) \<subseteq> dom (rule_status s3)"
    by blast
  from fin have "\<forall>n. k = YStr n \<longrightarrow> can_run_rule s3 n = ?b"
    by (auto simp add: can_run_rule_def)
  with upd fin mono show ?thesis by blast
qed

theorem C10_duplicate_names_last_wins_witness:
  "\<exists>s2 s3 s4.
     process_rule example_env ''m.map'' () state_after_p
       (YMap (rule_entry ''p'' ''Violates'' ''fail'' [])) = Continue s2 \<and>
     status_key example_env (YMap (rule_entry ''p'' ''Violates'' ''fail'' [])) = Some (YStr ''p'') \<and>
     run_loop example_env ''m.map'' () s2 [YMap (rule_entry ''x'' ''Passes'' ''fail'' [])] = Continue s3 \<and>
     list_all (\<lambda>x. status_key example_env x \<noteq> Some (YStr ''p''))
       [YMap (rule_entry ''x'' ''Passes'' ''fail'' [])] \<and>
     process_rule example_env ''m.map'' () s3
       (YMap (rule_entry ''p'' ''Passes'' ''skip'' [])) = Continue s4 \<and>
     status_key example_env (YMap (rule_entry ''p'' ''Passes'' ''skip'' [])) = Some (YStr ''p'') \<and>
     rule_status state_after_p (YStr ''p'') = Some True \<and>
     rule_status s3 (YStr ''p'') = Some False \<and>
     can_run_rule s3 ''p'' = False \<and>
     rule_status s4 (YStr ''p'') = Some True \<and>
     can_run_rule s4 ''p'' = True"
proof -
  let ?second = "YMap (rule_entry ''p'' ''Violates'' ''fail'' [])"
  let ?other = "YMap (rule_entry ''x'' ''Passes'' ''fail'' [])"
  let ?third = "YMap (rule_entry ''p'' ''Passes'' ''skip'' [])"
  have "\<exists>s2 s3 s4.
     process_rule example_env ''m.map'' () state_after_p ?second = Continue s2 \<and>
     run_loop example_env ''m.map'' () s2 [?other] = Continue s3 \<and>
     process_rule example_env ''m.map'' () s3 ?third = Continue s4"
    by (simp add: engine_defs example_defs state_after_p_def)
  then obtain s2 s3 s4
    where h1: "process_rule example_env ''m.map'' () state_after_p ?second = Continue s2"
      and h3: "run_loop example_env ''m.map'' () s2 [?other] = Continue s3"
      and g1: "process_rule example_env ''m.map'' () s3 ?third = Continue s4"
    by blast
  have h2: "status_key example_env ?second = Some (YStr ''p'')"
    by (simp add: status_key_def example_defs)
  have h4: "list_all (\<lambda>x. status_key example_env x \<noteq> Some (YStr ''p'')) [?other]"
    by (simp add: status_key_def example_defs)
  have g2: "status_key example_env ?third = Some (YStr ''p'')"
    by (simp add: status_key_def example_defs)
  have g3: "run_loop example_env ''m.map'' () s4 [] = Continue s4"
    by simp
  have g4: "list_all (\<lambda>x. status_key example_env x \<noteq> Some (YStr ''p'')) []"
    by simp
  have before: "rule_status state_after_p (YStr ''p'') = Some True"
    by (simp add: state_after_p_def)
  have fails: "rule_passes example_env ''m.map'' () state_after_p ?second = False"
    by (simp add: rule_passes_def descriptor_passes_def resolved_instance_def example_defs)
  have passes: "rule_passes example_env ''m.map'' () s3 ?third = True"
    by (simp add: rule_passes_def descriptor_passes_def resolved_instance_def example_defs)
  from C10_duplicate_names_last_wins [OF h1 h2 h3 h4] fails
  have r3: "rule_status s3 (YStr ''p'') = Some False" and c3: "can_run_rule s3 ''p'' = False"
    by simp_all
  from C10_duplicate_names_last_wins [OF g1 g2 g3 g4] passes
  have r4: "rule_status s4 (YStr ''p'') = Some True" and c4: "can_run_rule s4 ''p'' = True"
    by simp_all
  from h1 h2 h3 h4 g1 g2 before r3 c3 r4 c4 show ?thesis by blast
qed

end
